theory Spec2Isabelle
  imports Main "HOL-Library.Multiset"
begin

section \<open>Data model (src/lib/utils.ts)\<close>

text \<open>
  \<^verbatim>\<open>export interface FileSystemItem { name: string; path: string; size: number; isDirectory: boolean }\<close>

  The field \<^verbatim>\<open>size\<close> is called \<open>size_bytes\<close> here, because \<open>size\<close> is a constant of HOL.
  It is a JavaScript number holding a byte count; byte counts are integers, and the model
  uses \<open>int\<close>, on which \<^verbatim>\<open>b.size - a.size\<close> is plain subtraction.
\<close>

record FileSystemItem =
  name :: string
  path :: string
  size_bytes :: int
  isDirectory :: bool

section \<open>sortItems (src/App.tsx, lines 18-26)\<close>

text \<open>
  The comparator handed to \<^verbatim>\<open>Array.prototype.sort\<close>:
  \<^verbatim>\<open>
  (a, b) => {
    if (a.isDirectory && !b.isDirectory) return -1;
    if (!a.isDirectory && b.isDirectory) return 1;
    return b.size - a.size;
  }
  \<close>
\<close>

definition compareItems :: "FileSystemItem \<Rightarrow> FileSystemItem \<Rightarrow> int" where
  "compareItems a b =
     (if isDirectory a \<and> \<not> isDirectory b then - 1
      else if \<not> isDirectory a \<and> isDirectory b then 1
      else size_bytes b - size_bytes a)"

text \<open>
  \<^verbatim>\<open>Array.prototype.sort(comparefn)\<close> is a stable comparison sort (ECMAScript 2019 and
  later): an element moves in front of another one only when the comparator asks for it.
  It is modelled by the stable insertion sort; \<open>insertBy\<close> puts \<open>x\<close>, which stood in
  front of all of \<open>ys\<close>, behind exactly those leading elements that the comparator
  orders strictly before it.
\<close>

fun insertBy :: "('a \<Rightarrow> 'a \<Rightarrow> int) \<Rightarrow> 'a \<Rightarrow> 'a list \<Rightarrow> 'a list" where
  "insertBy cmp x [] = [x]"
| "insertBy cmp x (y # ys) =
     (if cmp x y \<le> 0 then x # y # ys else y # insertBy cmp x ys)"

definition array_sort :: "('a \<Rightarrow> 'a \<Rightarrow> int) \<Rightarrow> 'a list \<Rightarrow> 'a list" where
  "array_sort cmp xs = foldr (insertBy cmp) xs []"

text \<open>
  \<^verbatim>\<open>const sortItems = (itemsToSort) => [...itemsToSort].sort(comparator)\<close>, on the
  contents of the arrays: the spread copies the contents, the sort orders the copy.
\<close>

definition sortItems :: "FileSystemItem list \<Rightarrow> FileSystemItem list" where
  "sortItems itemsToSort = array_sort compareItems itemsToSort"

text \<open>
  The same function on a store of arrays, where the difference between sorting a copy and
  sorting in place shows. An array reference is an index into the store; \<open>spread\<close> is
  \<^verbatim>\<open>[...a]\<close> (a new array with the same elements), \<open>sort_in_place\<close> is
  \<^verbatim>\<open>a.sort(cmp)\<close>, which overwrites the array it is called on and returns that same
  reference. A reference that a program holds is valid, that is, below the length of the
  store; the functions are used on valid references only.
\<close>

type_synonym 'a store = "'a list list"
type_synonym ref = nat

definition spread :: "'a store \<Rightarrow> ref \<Rightarrow> 'a store \<times> ref" where
  "spread h a = (h @ [h ! a], length h)"

definition sort_in_place :: "('a \<Rightarrow> 'a \<Rightarrow> int) \<Rightarrow> 'a store \<Rightarrow> ref \<Rightarrow> 'a store \<times> ref" where
  "sort_in_place cmp h a = (h[a := array_sort cmp (h ! a)], a)"

definition sortItems_store :: "FileSystemItem store \<Rightarrow> ref \<Rightarrow> FileSystemItem store \<times> ref" where
  "sortItems_store h itemsToSort =
     (let (h1, copy) = spread h itemsToSort in sort_in_place compareItems h1 copy)"

section \<open>formatFileSize (src/lib/utils.ts, lines 15-21)\<close>

text \<open>
  Decimal digits of a natural number, as \<^verbatim>\<open>Number.prototype.toString\<close> prints an
  integer below \<open>10^21\<close>.
\<close>

definition digit_char :: "nat \<Rightarrow> char" where
  "digit_char d = ''0123456789'' ! d"

fun show_nat :: "nat \<Rightarrow> string" where
  "show_nat n = (if n < 10 then [digit_char n] else show_nat (n div 10) @ [digit_char (n mod 10)])"

declare show_nat.simps [simp del]

text \<open>
  JavaScript prints a number of magnitude \<open>10^21\<close> or more in exponent notation. That
  printer is not part of this repository; it is the parameter \<open>expo\<close>, which receives
  the number as a fraction \<open>num / den\<close>.

  \<open>number_toString\<close> is the template substitution \<^verbatim>\<open>`${bytes}`\<close> of an integer.
\<close>

definition number_toString :: "(int \<Rightarrow> int \<Rightarrow> string) \<Rightarrow> int \<Rightarrow> string" where
  "number_toString expo n =
     (if 10 ^ 21 \<le> \<bar>n\<bar> then (if n < 0 then ''-'' else []) @ expo \<bar>n\<bar> 1
      else (if n < 0 then ''-'' else []) @ show_nat (nat \<bar>n\<bar>))"

text \<open>
  \<^verbatim>\<open>(num / den).toFixed(2)\<close> for \<open>den > 0\<close>, after ECMAScript's
  \<^verbatim>\<open>Number.prototype.toFixed\<close>: the sign is split off; a value of \<open>10^21\<close> or more is
  printed by \<open>expo\<close>; otherwise \<open>n\<close> is the integer for which \<open>n / 100\<close> is closest to
  the value (the larger one of two), its digits are padded with zeros to three at least, and
  the point goes in front of the last two. The repository divides by powers of 1024 only,
  which is exact on the floating-point numbers that hold integers, so the quotient is the
  fraction itself.
\<close>

definition toFixed2 :: "(int \<Rightarrow> int \<Rightarrow> string) \<Rightarrow> int \<Rightarrow> int \<Rightarrow> string" where
  "toFixed2 expo num den =
     (let s = (if num < 0 then ''-'' else []); x = \<bar>num\<bar>
      in if 10 ^ 21 * den \<le> x then s @ expo x den
         else
           let n = nat ((200 * x + den) div (2 * den));
               m = show_nat n;
               m' = replicate (3 - length m) (CHR ''0'') @ m
           in s @ take (length m' - 2) m' @ ''.'' @ drop (length m' - 2) m')"

text \<open>
  \<^verbatim>\<open>
  export function formatFileSize(bytes: number): string {
    if (bytes === 0) return '0 Bytes'
    if (bytes < 1024) return `${bytes} Bytes`
    if (bytes < 1024 ** 2) return `${(bytes / 1024).toFixed(2)} KB`
    if (bytes < 1024 ** 3) return `${(bytes / (1024 ** 2)).toFixed(2)} MB`
    return `${(bytes / (1024 ** 3)).toFixed(2)} GB`
  }
  \<close>
\<close>

definition formatFileSize :: "(int \<Rightarrow> int \<Rightarrow> string) \<Rightarrow> int \<Rightarrow> string" where
  "formatFileSize expo bytes =
     (if bytes = 0 then ''0 Bytes''
      else if bytes < 1024 then number_toString expo bytes @ '' Bytes''
      else if bytes < 1024 ^ 2 then toFixed2 expo bytes 1024 @ '' KB''
      else if bytes < 1024 ^ 3 then toFixed2 expo bytes (1024 ^ 2) @ '' MB''
      else toFixed2 expo bytes (1024 ^ 3) @ '' GB'')"

section \<open>scanFolder (src/App.tsx, lines 28-117)\<close>

subsection \<open>The component's state and its surroundings\<close>

text \<open>
  An entry of the listing that \<^verbatim>\<open>readDir\<close> returns; the scan reads its
  \<^verbatim>\<open>name\<close> and \<^verbatim>\<open>isDirectory\<close> (the fields carry the prefix \<open>entry_\<close>, as
  the item record has fields of the same names).
\<close>

record DirEntry =
  entry_name :: string
  entry_isDirectory :: bool

text \<open>A rejected promise carries an error; the code only ever prints it.\<close>

type_synonym js_error = string

text \<open>
  The React state of \<^verbatim>\<open>App\<close> (lines 11-16). \<open>abortControllerRef\<close> is \<open>None\<close>
  for \<^verbatim>\<open>null\<close> and \<open>Some b\<close> for a controller whose \<^verbatim>\<open>signal.aborted\<close> is \<open>b\<close>.
\<close>

record app_state =
  items :: "FileSystemItem list"
  isLoading :: bool
  selectedFolder :: "string option"
  error :: "string option"
  scannedCount :: nat
  abortControllerRef :: "bool option"

text \<open>
  What one call of \<^verbatim>\<open>scanFolder\<close> meets outside itself: the answer of the folder
  dialog (\<^verbatim>\<open>open\<close>: rejected, or resolved with \<^verbatim>\<open>null\<close> or a path), the
  listing of a directory, the path join, the size lookup, and the value of
  \<^verbatim>\<open>abortController.signal.aborted\<close> that the loop reads at the top of its \<open>i\<close>-th
  iteration (another call of \<^verbatim>\<open>scanFolder\<close> may set it while this one waits for
  I/O). \<^verbatim>\<open>join\<close> and \<^verbatim>\<open>size\<close> get a path and nothing else: no signal is handed
  to them.
\<close>

record env =
  open_dialog :: "js_error + string option"
  readDir :: "string \<Rightarrow> js_error + DirEntry list"
  join :: "string \<Rightarrow> string \<Rightarrow> js_error + string"
  size_fs :: "string \<Rightarrow> js_error + int"
  aborted :: "nat \<Rightarrow> bool"

text \<open>The calls that leave the component, in the order they are made.\<close>

datatype io_event =
    OpenDialog
  | ReadDir string
  | Join string string
  | Size string
  | ConsoleError "string list"

text \<open>The state and the local variables of the loop (lines 56-61), and the calls so far.\<close>

record loop_state =
  ui :: app_state
  newItems :: "FileSystemItem list"
  processedCount :: nat
  failedCount :: nat
  calls :: "io_event list"

text \<open>The initial values of lines 11-16.\<close>

definition initial_state :: app_state where
  "initial_state =
     \<lparr>items = [], isLoading = False, selectedFolder = None, error = None, scannedCount = 0,
      abortControllerRef = None\<rparr>"

subsection \<open>The loop over the entries (lines 63-97)\<close>

definition startsWith :: "string \<Rightarrow> string \<Rightarrow> bool" where
  "startsWith s p \<longleftrightarrow> take (length p) s = p"

definition BATCH_SIZE :: nat where
  "BATCH_SIZE = 50"

text \<open>
  The two awaited calls of the \<^verbatim>\<open>try\<close> block (lines 76-77), either of which may
  throw, and the item built from their results (lines 79-84).
\<close>

definition probe_entry :: "env \<Rightarrow> string \<Rightarrow> DirEntry \<Rightarrow> io_event list \<times> (js_error + FileSystemItem)" where
  "probe_entry E selected entry =
     (case join E selected (entry_name entry) of
        Inl err \<Rightarrow> ([Join selected (entry_name entry)], Inl err)
      | Inr fullPath \<Rightarrow>
          (case size_fs E fullPath of
             Inl err \<Rightarrow> ([Join selected (entry_name entry), Size fullPath], Inl err)
           | Inr itemSize \<Rightarrow>
               ([Join selected (entry_name entry), Size fullPath],
                Inr \<lparr>name = entry_name entry, path = fullPath, size_bytes = itemSize,
                     isDirectory = entry_isDirectory entry\<rparr>)))"

text \<open>Lines 79-92: push the item, count it, show the count, refresh the list in batches.\<close>

definition pushed :: "nat \<Rightarrow> FileSystemItem \<Rightarrow> io_event list \<Rightarrow> loop_state \<Rightarrow> loop_state" where
  "pushed n item evs s =
     (let newItems' = newItems s @ [item];
          processedCount' = processedCount s + 1;
          ui1 = (ui s)\<lparr>scannedCount := processedCount'\<rparr>;
          ui2 = (if processedCount' mod BATCH_SIZE = 0 \<or> processedCount' = n
                 then ui1\<lparr>items := sortItems newItems'\<rparr> else ui1)
      in s\<lparr>ui := ui2, newItems := newItems', processedCount := processedCount',
           calls := calls s @ evs\<rparr>)"

text \<open>Lines 93-96: the \<^verbatim>\<open>catch\<close> of the loop body.\<close>

definition caught :: "string \<Rightarrow> js_error \<Rightarrow> io_event list \<Rightarrow> loop_state \<Rightarrow> loop_state" where
  "caught nm err evs s =
     s\<lparr>failedCount := failedCount s + 1,
       calls := calls s @ evs @ [ConsoleError [''Error reading '' @ nm @ '':'', err]]\<rparr>"

definition try_entry :: "env \<Rightarrow> string \<Rightarrow> nat \<Rightarrow> DirEntry \<Rightarrow> loop_state \<Rightarrow> loop_state" where
  "try_entry E selected n entry s =
     (case probe_entry E selected entry of
        (evs, Inr item) \<Rightarrow> pushed n item evs s
      | (evs, Inl err) \<Rightarrow> caught (entry_name entry) err evs s)"

text \<open>
  \<^verbatim>\<open>for (const entry of entries)\<close>; \<open>n\<close> is \<^verbatim>\<open>entries.length\<close>, \<open>i\<close> the number
  of the iteration. The result says whether the loop left through the \<^verbatim>\<open>return\<close> of
  line 66.
\<close>

fun scan_loop :: "env \<Rightarrow> string \<Rightarrow> nat \<Rightarrow> nat \<Rightarrow> DirEntry list \<Rightarrow> loop_state \<Rightarrow> bool \<times> loop_state" where
  "scan_loop E selected n i [] s = (False, s)"
| "scan_loop E selected n i (entry # rest) s =
     (if aborted E i then (True, s)
      else if startsWith (entry_name entry) ''.'' then scan_loop E selected n (Suc i) rest s
      else scan_loop E selected n (Suc i) rest (try_entry E selected n entry s))"

subsection \<open>The whole function\<close>

text \<open>Lines 30-35.\<close>

definition abort_existing :: "app_state \<Rightarrow> app_state" where
  "abort_existing st =
     (case abortControllerRef st of
        Some b \<Rightarrow> st\<lparr>error := None, abortControllerRef := Some True\<rparr>
      | None \<Rightarrow> st\<lparr>error := None\<rparr>)"

text \<open>Lines 46-53.\<close>

definition start_scan :: "string \<Rightarrow> app_state \<Rightarrow> app_state" where
  "start_scan selected st =
     st\<lparr>selectedFolder := Some selected, isLoading := True, items := [], scannedCount := 0,
        abortControllerRef := Some False\<rparr>"

text \<open>Lines 111-116: the outer \<^verbatim>\<open>catch\<close>.\<close>

definition scan_failed :: "js_error \<Rightarrow> app_state \<Rightarrow> app_state" where
  "scan_failed err st =
     st\<lparr>error := Some (''Failed to scan folder: '' @ err), isLoading := False,
        abortControllerRef := None\<rparr>"

definition metadata_error :: string where
  "metadata_error = ''Couldn't read item metadata. Check permissions or path construction. If this persists, ensure the app can access your Desktop paths.''"

text \<open>Lines 56-97: the loop from its initial local variables.\<close>

definition scan_entries :: "env \<Rightarrow> string \<Rightarrow> DirEntry list \<Rightarrow> app_state \<Rightarrow> bool \<times> loop_state" where
  "scan_entries E selected entries st =
     scan_loop E selected (length entries) 0 entries
       \<lparr>ui = st, newItems = [], processedCount = 0, failedCount = 0,
        calls = [OpenDialog, ReadDir selected]\<rparr>"

text \<open>Lines 99-110, after a loop that ran to its end.\<close>

definition finish_scan :: "nat \<Rightarrow> loop_state \<Rightarrow> app_state" where
  "finish_scan n s =
     (let st4 = (ui s)\<lparr>items := sortItems (newItems s)\<rparr>;
          st5 = (if 0 < n \<and> length (newItems s) = 0 \<and> failedCount s = n
                 then st4\<lparr>error := Some metadata_error\<rparr> else st4)
      in st5\<lparr>isLoading := False, abortControllerRef := None\<rparr>)"

text \<open>
  Lines 46-116, for the folder the dialog returned. When the loop returns at line 66, nothing
  more is written: the state is the one of the last iteration, the loading flag stays set and
  the reference still holds this scan's controller, whose signal is the aborted one.
\<close>

definition scan_selected :: "env \<Rightarrow> string \<Rightarrow> app_state \<Rightarrow> app_state \<times> io_event list" where
  "scan_selected E selected st =
     (case readDir E selected of
        Inl err \<Rightarrow>
          (scan_failed err (start_scan selected st),
           [OpenDialog, ReadDir selected, ConsoleError [err]])
      | Inr entries \<Rightarrow>
          (case scan_entries E selected entries (start_scan selected st) of
             (True, s) \<Rightarrow> ((ui s)\<lparr>abortControllerRef := Some True\<rparr>, calls s)
           | (False, s) \<Rightarrow> (finish_scan (length entries) s, calls s)))"

text \<open>
  \<^verbatim>\<open>if (!selected || typeof selected !== "string") return;\<close> leaves for \<^verbatim>\<open>null\<close>
  and for the empty string.
\<close>

definition scanFolder :: "env \<Rightarrow> app_state \<Rightarrow> app_state \<times> io_event list" where
  "scanFolder E st =
     (case open_dialog E of
        Inl err \<Rightarrow> (scan_failed err (abort_existing st), [OpenDialog, ConsoleError [err]])
      | Inr None \<Rightarrow> (abort_existing st, [OpenDialog])
      | Inr (Some selected) \<Rightarrow>
          (if selected = [] then (abort_existing st, [OpenDialog])
           else scan_selected E selected (abort_existing st)))"

section \<open>Notions used in the statements\<close>

text \<open>\<open>before_eq a b\<close>: the comparator allows \<open>a\<close> to stand in front of \<open>b\<close>.\<close>

definition before_eq :: "FileSystemItem \<Rightarrow> FileSystemItem \<Rightarrow> bool" where
  "before_eq a b \<longleftrightarrow> compareItems a b \<le> 0"

text \<open>An entry that line 70 skips.\<close>

definition hidden :: "DirEntry \<Rightarrow> bool" where
  "hidden e \<longleftrightarrow> startsWith (entry_name e) ''.''"

text \<open>
  The items of the entries that are not hidden and whose two lookups both succeed, in the
  order of the listing; and the entries that are not hidden and for which a lookup fails.
\<close>

definition readable_items :: "env \<Rightarrow> string \<Rightarrow> DirEntry list \<Rightarrow> FileSystemItem list" where
  "readable_items E selected entries =
     concat (map (\<lambda>e. if hidden e then []
                       else case snd (probe_entry E selected e) of
                              Inr item \<Rightarrow> [item] | Inl err \<Rightarrow> []) entries)"

definition unreadable :: "env \<Rightarrow> string \<Rightarrow> DirEntry \<Rightarrow> bool" where
  "unreadable E selected e \<longleftrightarrow>
     \<not> hidden e \<and> (case snd (probe_entry E selected e) of Inr item \<Rightarrow> False | Inl err \<Rightarrow> True)"

text \<open>The calls one iteration makes for an entry that is not hidden.\<close>

definition entry_calls :: "env \<Rightarrow> string \<Rightarrow> DirEntry \<Rightarrow> io_event list" where
  "entry_calls E selected e =
     (case probe_entry E selected e of
        (evs, Inr item) \<Rightarrow> evs
      | (evs, Inl err) \<Rightarrow> evs @ [ConsoleError [''Error reading '' @ entry_name e @ '':'', err]])"

text \<open>The messages written to the console among a list of calls.\<close>

definition console_errors :: "io_event list \<Rightarrow> string list list" where
  "console_errors evs =
     concat (map (\<lambda>ev. case ev of ConsoleError msg \<Rightarrow> [msg] | _ \<Rightarrow> []) evs)"


text \<open>
  The value \<open>num / den\<close> in hundredths, rounded to the nearest (halves upwards), and a
  number of hundredths printed with two decimals.
\<close>

definition hundredths :: "int \<Rightarrow> int \<Rightarrow> nat" where
  "hundredths num den = nat ((200 * num + den) div (2 * den))"

definition fixed2 :: "nat \<Rightarrow> string" where
  "fixed2 n = show_nat (n div 100) @ ''.'' @ [digit_char (n div 10 mod 10), digit_char (n mod 10)]"


subsection \<open>Example inputs\<close>

text \<open>
  A folder \<open>/r\<close> with a hidden file, a file of 100 bytes, a directory of 50 bytes and a
  directory whose size lookup is denied; and the same folder without the last one.
\<close>

definition example_listing :: "DirEntry list" where
  "example_listing =
     [\<lparr>entry_name = ''.DS_Store'', entry_isDirectory = False\<rparr>,
      \<lparr>entry_name = ''a.txt'', entry_isDirectory = False\<rparr>,
      \<lparr>entry_name = ''sub'', entry_isDirectory = True\<rparr>,
      \<lparr>entry_name = ''locked'', entry_isDirectory = True\<rparr>]"

definition example_env :: env where
  "example_env =
     \<lparr>open_dialog = Inr (Some ''/r''),
      readDir = (\<lambda>p. if p = ''/r'' then Inr example_listing else Inl ''not found''),
      join = (\<lambda>d nm. Inr (d @ ''/'' @ nm)),
      size_fs = (\<lambda>p. if p = ''/r/a.txt'' then Inr 100
                      else if p = ''/r/sub'' then Inr 50 else Inl ''permission denied''),
      aborted = (\<lambda>i. False)\<rparr>"

definition clean_env :: env where
  "clean_env = example_env\<lparr>readDir := (\<lambda>p. Inr (take 3 example_listing))\<rparr>"


definition locked_env :: env where
  "locked_env = example_env\<lparr>readDir := (\<lambda>p. Inr (drop 3 example_listing))\<rparr>"

definition broken_env :: env where
  "broken_env = example_env\<lparr>readDir := (\<lambda>p. Inl ''permission denied'')\<rparr>"

definition aborting_env :: env where
  "aborting_env = example_env\<lparr>aborted := (\<lambda>i. 2 \<le> i)\<rparr>"

definition other_env :: env where
  "other_env = example_env\<lparr>readDir := (\<lambda>p. Inr example_listing)\<rparr>"

definition file_a :: FileSystemItem where
  "file_a = \<lparr>name = ''a.txt'', path = ''/r/a.txt'', size_bytes = 100, isDirectory = False\<rparr>"

definition file_b :: FileSystemItem where
  "file_b = \<lparr>name = ''b.txt'', path = ''/r/b.txt'', size_bytes = 100, isDirectory = False\<rparr>"

definition dir_sub :: FileSystemItem where
  "dir_sub = \<lparr>name = ''sub'', path = ''/r/sub'', size_bytes = 50, isDirectory = True\<rparr>"

section \<open>Lemmas about the sort\<close>

lemma before_eq_iff:
  "before_eq a b \<longleftrightarrow>
     (isDirectory b \<longrightarrow> isDirectory a) \<and>
     (isDirectory a = isDirectory b \<longrightarrow> size_bytes b \<le> size_bytes a)"
  by (auto simp: before_eq_def compareItems_def)

lemma before_eq_total: "\<not> before_eq a b \<Longrightarrow> before_eq b a"
  by (auto simp: before_eq_iff)

lemma before_eq_trans: "before_eq a b \<Longrightarrow> before_eq b c \<Longrightarrow> before_eq a c"
  by (auto simp: before_eq_iff)

lemma set_insertBy: "set (insertBy cmp x ys) = insert x (set ys)"
  by (induction ys) auto

lemma mset_insertBy: "mset (insertBy cmp x ys) = add_mset x (mset ys)"
  by (induction ys) auto

lemma mset_array_sort: "mset (array_sort cmp xs) = mset xs"
  by (induction xs) (simp_all add: array_sort_def mset_insertBy)

lemma sorted_insertBy:
  "sorted_wrt before_eq ys \<Longrightarrow> sorted_wrt before_eq (insertBy compareItems x ys)"
proof (induction ys)
  case Nil
  then show ?case by simp
next
  case (Cons y ys)
  show ?case
  proof (cases "compareItems x y \<le> 0")
    case True
    then have xy: "before_eq x y" by (simp add: before_eq_def)
    have "\<forall>z\<in>set ys. before_eq x z"
      using Cons.prems xy before_eq_trans by auto
    with True xy Cons.prems show ?thesis by simp
  next
    case False
    then have "before_eq y x" using before_eq_total by (simp add: before_eq_def)
    with False Cons show ?thesis by (auto simp: set_insertBy)
  qed
qed

lemma sorted_sortItems: "sorted_wrt before_eq (sortItems xs)"
  by (induction xs) (simp_all add: sortItems_def array_sort_def sorted_insertBy)

text \<open>Stability: items of one kind and one size keep the order they came in.\<close>

lemma filter_insertBy:
  "filter (\<lambda>y. isDirectory y = d \<and> size_bytes y = sz) (insertBy compareItems x ys)
     = filter (\<lambda>y. isDirectory y = d \<and> size_bytes y = sz) (x # ys)"
proof (induction ys)
  case Nil
  then show ?case by simp
next
  case (Cons y ys)
  show ?case
  proof (cases "compareItems x y \<le> 0")
    case True
    then show ?thesis by simp
  next
    case False
    then have "\<not> (isDirectory x = isDirectory y \<and> size_bytes x = size_bytes y)"
      by (auto simp: compareItems_def split: if_splits)
    then have "\<not> ((isDirectory x = d \<and> size_bytes x = sz) \<and> (isDirectory y = d \<and> size_bytes y = sz))"
      by auto
    with False Cons show ?thesis by auto
  qed
qed

lemma filter_sortItems:
  "filter (\<lambda>y. isDirectory y = d \<and> size_bytes y = sz) (sortItems xs)
     = filter (\<lambda>y. isDirectory y = d \<and> size_bytes y = sz) xs"
  by (induction xs) (simp_all add: sortItems_def array_sort_def filter_insertBy)

text \<open>A list that is in order already is left as it is.\<close>

lemma array_sort_sorted:
  "sorted_wrt before_eq ys \<Longrightarrow> array_sort compareItems ys = ys"
proof (induction ys)
  case Nil
  then show ?case by (simp add: array_sort_def)
next
  case (Cons y ys)
  then have "array_sort compareItems (y # ys) = insertBy compareItems y ys"
    by (simp add: array_sort_def)
  also have "\<dots> = y # ys"
    using Cons.prems by (cases ys) (simp_all add: before_eq_def)
  finally show ?case .
qed

lemma sortItems_idem: "sortItems (sortItems xs) = sortItems xs"
  using array_sort_sorted [OF sorted_sortItems] by (simp add: sortItems_def)

section \<open>The order of the listing\<close>

text \<open>
  Claim C1. In the list that \<open>sortItems\<close> returns, whenever one item stands in front of
  another, the later one is a directory only if the earlier one is (so every directory
  stands in front of every other item, whatever the sizes), and two items of the same kind
  stand in non-increasing order of size.
\<close>

theorem sortItems_directories_first_size_descending:
  "sorted_wrt (\<lambda>a b. (isDirectory b \<longrightarrow> isDirectory a) \<and>
                      (isDirectory a = isDirectory b \<longrightarrow> size_bytes b \<le> size_bytes a))
     (sortItems xs)"
  using sorted_sortItems [of xs] by (simp add: before_eq_iff [abs_def])

theorem sortItems_directories_first_size_descending_witness:
  "sortItems [file_a, dir_sub, file_a\<lparr>size_bytes := 7\<rparr>, file_b\<lparr>size_bytes := 900\<rparr>]
     = [dir_sub, file_b\<lparr>size_bytes := 900\<rparr>, file_a, file_a\<lparr>size_bytes := 7\<rparr>]
   \<and> sorted_wrt (\<lambda>a b. (isDirectory b \<longrightarrow> isDirectory a) \<and>
                      (isDirectory a = isDirectory b \<longrightarrow> size_bytes b \<le> size_bytes a))
     (sortItems [file_a, dir_sub, file_a\<lparr>size_bytes := 7\<rparr>, file_b\<lparr>size_bytes := 900\<rparr>])"
  using sortItems_directories_first_size_descending
    [of "[file_a, dir_sub, file_a\<lparr>size_bytes := 7\<rparr>, file_b\<lparr>size_bytes := 900\<rparr>]"]
  by (simp add: sortItems_def array_sort_def compareItems_def file_a_def file_b_def dir_sub_def)

text \<open>
  Claim C7 says that two entries of the same kind and size are ordered by name. The
  comparator never looks at the name: two files of 100 bytes come out in the order they went
  in, whichever that is.
\<close>

theorem sortItems_no_name_tie_break_counterexample:
  "size_bytes file_a = size_bytes file_b \<and> isDirectory file_a = isDirectory file_b
   \<and> name file_a \<noteq> name file_b
   \<and> sortItems [file_a, file_b] = [file_a, file_b]
   \<and> sortItems [file_b, file_a] = [file_b, file_a]"
  by (simp add: sortItems_def array_sort_def compareItems_def file_a_def file_b_def)

text \<open>
  Claim C7, amended. The listing is ordered directories first, then by size descending, and
  items of the same kind and the same size keep the order in which they stood in the input:
  the order is fixed by kind, size and position in the input, not by name.
\<close>

theorem sortItems_order_stable:
  "sorted_wrt (\<lambda>a b. (isDirectory b \<longrightarrow> isDirectory a) \<and>
                      (isDirectory a = isDirectory b \<longrightarrow> size_bytes b \<le> size_bytes a))
     (sortItems xs)
   \<and> (\<forall>d sz. filter (\<lambda>y. isDirectory y = d \<and> size_bytes y = sz) (sortItems xs)
               = filter (\<lambda>y. isDirectory y = d \<and> size_bytes y = sz) xs)"
  using sorted_sortItems [of xs] filter_sortItems [of _ _ xs]
  by (simp add: before_eq_iff [abs_def])

theorem sortItems_order_stable_witness:
  "sortItems [file_b, dir_sub, file_a] = [dir_sub, file_b, file_a]
   \<and> sorted_wrt (\<lambda>a b. (isDirectory b \<longrightarrow> isDirectory a) \<and>
                      (isDirectory a = isDirectory b \<longrightarrow> size_bytes b \<le> size_bytes a))
     (sortItems [file_b, dir_sub, file_a])
   \<and> (\<forall>d sz. filter (\<lambda>y. isDirectory y = d \<and> size_bytes y = sz) (sortItems [file_b, dir_sub, file_a])
               = filter (\<lambda>y. isDirectory y = d \<and> size_bytes y = sz) [file_b, dir_sub, file_a])"
  using sortItems_order_stable [of "[file_b, dir_sub, file_a]"]
  by (simp add: sortItems_def array_sort_def compareItems_def file_a_def file_b_def dir_sub_def)

section \<open>sortItems and the array it is given\<close>

text \<open>
  Claim C9. Called on a valid array reference, \<open>sortItems\<close> leaves every array that
  existed before the call as it was, its argument among them; it returns a reference that
  did not exist before, and the new array holds the sorted contents of the argument: the same
  elements with the same multiplicities.
\<close>

theorem sortItems_store_fresh_permutation:
  assumes "a < length h"
  shows "case sortItems_store h a of
           (h', r) \<Rightarrow>
             r = length h \<and> length h' = Suc (length h) \<and> (\<forall>i<length h. h' ! i = h ! i)
             \<and> h' ! r = sortItems (h ! a) \<and> mset (h' ! r) = mset (h ! a)"
  using assms
  by (auto simp: sortItems_store_def spread_def sort_in_place_def sortItems_def nth_append
      mset_array_sort)

theorem sortItems_store_fresh_permutation_witness:
  "(0::nat) < length [[file_a, dir_sub]]
   \<and> sortItems_store [[file_a, dir_sub]] 0 = ([[file_a, dir_sub], [dir_sub, file_a]], 1)
   \<and> (case sortItems_store [[file_a, dir_sub]] 0 of
           (h', r) \<Rightarrow>
             r = length [[file_a, dir_sub]] \<and> length h' = Suc (length [[file_a, dir_sub]])
             \<and> (\<forall>i<length [[file_a, dir_sub]]. h' ! i = [[file_a, dir_sub]] ! i)
             \<and> h' ! r = sortItems ([[file_a, dir_sub]] ! 0)
             \<and> mset (h' ! r) = mset ([[file_a, dir_sub]] ! 0))"
proof -
  have h: "(0::nat) < length [[file_a, dir_sub]]" by simp
  have e: "sortItems_store [[file_a, dir_sub]] 0 = ([[file_a, dir_sub], [dir_sub, file_a]], 1)"
    by (simp add: sortItems_store_def spread_def sort_in_place_def array_sort_def
        compareItems_def file_a_def dir_sub_def)
  show ?thesis
    by (intro conjI h e sortItems_store_fresh_permutation [OF h])
qed

section \<open>Lemmas about the scan\<close>

lemma try_entry_ok:
  assumes "probe_entry E sel e = (evs, Inr item)"
  shows "newItems (try_entry E sel n e s) = newItems s @ [item]"
    "processedCount (try_entry E sel n e s) = Suc (processedCount s)"
    "failedCount (try_entry E sel n e s) = failedCount s"
    "calls (try_entry E sel n e s) = calls s @ evs"
    "scannedCount (ui (try_entry E sel n e s)) = Suc (processedCount s)"
    "isLoading (ui (try_entry E sel n e s)) = isLoading (ui s)"
    "selectedFolder (ui (try_entry E sel n e s)) = selectedFolder (ui s)"
    "error (ui (try_entry E sel n e s)) = error (ui s)"
    "abortControllerRef (ui (try_entry E sel n e s)) = abortControllerRef (ui s)"
    "items (ui (try_entry E sel n e s)) =
       (if Suc (processedCount s) mod BATCH_SIZE = 0 \<or> Suc (processedCount s) = n
        then sortItems (newItems s @ [item]) else items (ui s))"
  using assms by (simp_all add: try_entry_def pushed_def Let_def)

lemma try_entry_err:
  assumes "probe_entry E sel e = (evs, Inl err)"
  shows "newItems (try_entry E sel n e s) = newItems s"
    "processedCount (try_entry E sel n e s) = processedCount s"
    "failedCount (try_entry E sel n e s) = Suc (failedCount s)"
    "calls (try_entry E sel n e s) = calls s @ evs @ [ConsoleError [''Error reading '' @ entry_name e @ '':'', err]]"
    "ui (try_entry E sel n e s) = ui s"
  using assms by (simp_all add: try_entry_def caught_def)

lemma loop_complete:
  assumes "\<forall>j. \<not> aborted E j" and "scannedCount (ui s) = processedCount s"
  shows "fst (scan_loop E sel n i es s) = False
    \<and> newItems (snd (scan_loop E sel n i es s)) = newItems s @ readable_items E sel es
    \<and> processedCount (snd (scan_loop E sel n i es s)) = processedCount s + length (readable_items E sel es)
    \<and> failedCount (snd (scan_loop E sel n i es s)) = failedCount s + length (filter (unreadable E sel) es)
    \<and> scannedCount (ui (snd (scan_loop E sel n i es s))) = processedCount s + length (readable_items E sel es)
    \<and> isLoading (ui (snd (scan_loop E sel n i es s))) = isLoading (ui s)
    \<and> selectedFolder (ui (snd (scan_loop E sel n i es s))) = selectedFolder (ui s)
    \<and> error (ui (snd (scan_loop E sel n i es s))) = error (ui s)
    \<and> abortControllerRef (ui (snd (scan_loop E sel n i es s))) = abortControllerRef (ui s)"
  using assms
proof (induction es arbitrary: i s)
  case Nil
  then show ?case by (simp add: readable_items_def)
next
  case (Cons e es)
  show ?case
  proof (cases "hidden e")
    case True
    with Cons.prems Cons.IH[of s "Suc i"] show ?thesis
      by (simp add: hidden_def readable_items_def unreadable_def)
  next
    case False
    obtain evs r where pe: "probe_entry E sel e = (evs, r)" by (cases "probe_entry E sel e")
    show ?thesis
    proof (cases r)
      case (Inl err)
      note t = try_entry_err[OF pe[unfolded Inl], of n s]
      have "scannedCount (ui (try_entry E sel n e s)) = processedCount (try_entry E sel n e s)"
        using Cons.prems(2) t by simp
      from Cons.IH[OF Cons.prems(1) this, of "Suc i"] False Cons.prems(1) pe Inl t
      show ?thesis
        by (simp add: hidden_def readable_items_def unreadable_def)
    next
      case (Inr item)
      note t = try_entry_ok[OF pe[unfolded Inr], of n s]
      have "scannedCount (ui (try_entry E sel n e s)) = processedCount (try_entry E sel n e s)"
        using t by simp
      from Cons.IH[OF Cons.prems(1) this, of "Suc i"] False Cons.prems(1) pe Inr t(1-9)
      show ?thesis
        by (simp add: hidden_def readable_items_def unreadable_def)
    qed
  qed
qed


lemma loop_abort_take:
  assumes "k < length es" and "aborted E (i + k)" and "\<forall>j<k. \<not> aborted E (i + j)"
  shows "scan_loop E sel n i es s = (True, snd (scan_loop E sel n i (take k es) s))
    \<and> fst (scan_loop E sel n i (take k es) s) = False"
  using assms
proof (induction es arbitrary: i k s)
  case Nil
  then show ?case by simp
next
  case (Cons e es)
  show ?case
  proof (cases k)
    case 0
    with Cons.prems show ?thesis by simp
  next
    case (Suc k')
    have a: "k' < length es" using Cons.prems(1) Suc by simp
    have b: "aborted E (Suc i + k')" using Cons.prems(2) Suc by simp
    have c: "\<forall>j<k'. \<not> aborted E (Suc i + j)"
    proof (intro allI impI)
      fix j assume "j < k'"
      then have "Suc j < k" using Suc by simp
      with Cons.prems(3) have "\<not> aborted E (i + Suc j)" by blast
      then show "\<not> aborted E (Suc i + j)" by simp
    qed
    have d: "\<not> aborted E i" using Cons.prems(3) Suc by force
    from Cons.IH[OF a b c] d Suc show ?thesis by simp
  qed
qed

lemma loop_invariant:
  assumes "I s" and "\<And>e t. e \<in> set es \<Longrightarrow> \<not> hidden e \<Longrightarrow> I t \<Longrightarrow> I (try_entry E sel n e t)"
  shows "I (snd (scan_loop E sel n i es s))"
  using assms
proof (induction es arbitrary: i s)
  case Nil
  then show ?case by simp
next
  case (Cons e es)
  have step: "\<And>e' t. e' \<in> set es \<Longrightarrow> \<not> hidden e' \<Longrightarrow> I t \<Longrightarrow> I (try_entry E sel n e' t)"
    using Cons.prems(2) by simp
  show ?case
  proof (cases "aborted E i")
    case True
    with Cons.prems(1) show ?thesis by simp
  next
    case False
    show ?thesis
    proof (cases "hidden e")
      case True
      with False Cons.IH[OF Cons.prems(1) step, of "Suc i"] show ?thesis
        by (simp add: hidden_def)
    next
      case h: False
      have "I (try_entry E sel n e s)" using Cons.prems h by simp
      from Cons.IH[OF this step, of "Suc i"] False h show ?thesis
        by (simp add: hidden_def)
    qed
  qed
qed




lemma console_errors_append: "console_errors (a @ b) = console_errors a @ console_errors b"
  by (simp add: console_errors_def)

lemma console_entry_calls:
  "\<not> hidden e \<Longrightarrow>
     length (console_errors (entry_calls E sel e)) = (if unreadable E sel e then 1 else 0)"
  by (auto simp: console_errors_def entry_calls_def unreadable_def probe_entry_def
      split: sum.splits)

lemma console_loop_calls:
  "length (console_errors (concat (map (entry_calls E sel) (filter (\<lambda>e. \<not> hidden e) es))))
     = length (filter (unreadable E sel) es)"
proof (induction es)
  case Nil
  then show ?case by (simp add: console_errors_def)
next
  case (Cons e es)
  show ?case
  proof (cases "hidden e")
    case True
    then have "\<not> unreadable E sel e" by (simp add: unreadable_def)
    with True Cons show ?thesis by simp
  next
    case False
    with Cons console_entry_calls [OF False, of E sel] show ?thesis
      by (simp add: console_errors_append)
  qed
qed

lemma loop_cong:
  assumes "\<forall>nm. join E sel nm = join E' sel nm" and "\<forall>p. size_fs E p = size_fs E' p"
    and "\<forall>j. aborted E j = aborted E' j"
  shows "scan_loop E sel n i es s = scan_loop E' sel n i es s"
proof -
  have pe: "\<And>e. probe_entry E sel e = probe_entry E' sel e"
    using assms(1,2) by (auto simp: probe_entry_def split: sum.splits)
  show ?thesis
    using assms(3) by (induction es arbitrary: i s) (simp_all add: try_entry_def pe)
qed

lemma calls_try_entry: "calls (try_entry E sel n e s) = calls s @ entry_calls E sel e"
  by (auto simp: try_entry_def entry_calls_def pushed_def caught_def Let_def split: prod.splits sum.splits)

lemma loop_complete_calls:
  assumes "\<forall>j<length es. \<not> aborted E (i + j)"
  shows "calls (snd (scan_loop E sel n i es s))
     = calls s @ concat (map (entry_calls E sel) (filter (\<lambda>e. \<not> hidden e) es))"
  using assms
proof (induction es arbitrary: i s)
  case Nil
  then show ?case by simp
next
  case (Cons e es)
  have a: "\<not> aborted E i" using Cons.prems by force
  have "\<forall>j<length es. \<not> aborted E (Suc i + j)"
  proof (intro allI impI)
    fix j assume "j < length es"
    then have "Suc j < length (e # es)" by simp
    with Cons.prems have "\<not> aborted E (i + Suc j)" by blast
    then show "\<not> aborted E (Suc i + j)" by simp
  qed
  from Cons.IH[OF this] a show ?case
    by (simp add: hidden_def calls_try_entry)
qed

lemma set_readable_items:
  "it \<in> set (readable_items E sel es) \<longleftrightarrow>
     (\<exists>e\<in>set es. \<not> hidden e \<and> (\<exists>p sz. join E sel (entry_name e) = Inr p \<and> size_fs E p = Inr sz
        \<and> it = \<lparr>name = entry_name e, path = p, size_bytes = sz, isDirectory = entry_isDirectory e\<rparr>))"
  by (induction es) (auto simp: readable_items_def probe_entry_def split: sum.splits)

lemma unreadable_iff:
  "unreadable E sel e \<longleftrightarrow>
     \<not> hidden e \<and> (\<forall>p. join E sel (entry_name e) = Inr p \<longrightarrow> (\<exists>err. size_fs E p = Inl err))"
  by (auto simp: unreadable_def probe_entry_def split: sum.splits)

lemma scanFolder_selected:
  assumes "open_dialog E = Inr (Some sel)" and "sel \<noteq> []"
  shows "scanFolder E st = scan_selected E sel (abort_existing st)"
  using assms by (simp add: scanFolder_def)

lemma start_fields:
  "items (start_scan sel (abort_existing st)) = []"
  "isLoading (start_scan sel (abort_existing st)) = True"
  "selectedFolder (start_scan sel (abort_existing st)) = Some sel"
  "error (start_scan sel (abort_existing st)) = None"
  "scannedCount (start_scan sel (abort_existing st)) = 0"
  "abortControllerRef (start_scan sel (abort_existing st)) = Some False"
  by (simp_all add: start_scan_def abort_existing_def split: option.splits)

lemma start_scan_eq:
  "start_scan sel (abort_existing st) =
     \<lparr>items = [], isLoading = True, selectedFolder = Some sel, error = None, scannedCount = 0,
      abortControllerRef = Some False\<rparr>"
  by (simp add: start_scan_def abort_existing_def split: option.splits)

lemma scanFolder_completed:
  assumes "open_dialog E = Inr (Some sel)" and "sel \<noteq> []" and "readDir E sel = Inr entries"
    and "\<forall>j. \<not> aborted E j"
  shows "fst (scanFolder E st) =
     \<lparr>items = sortItems (readable_items E sel entries), isLoading = False,
      selectedFolder = Some sel,
      error = (if entries \<noteq> [] \<and> readable_items E sel entries = []
                  \<and> length (filter (unreadable E sel) entries) = length entries
               then Some metadata_error else None),
      scannedCount = length (readable_items E sel entries), abortControllerRef = None\<rparr>"
proof -
  let ?s0 = "\<lparr>ui = start_scan sel (abort_existing st), newItems = [], processedCount = 0,
              failedCount = 0, calls = [OpenDialog, ReadDir sel]\<rparr>"
  let ?r = "scan_loop E sel (length entries) 0 entries ?s0"
  have inv: "scannedCount (ui ?s0) = processedCount ?s0" by (simp add: start_fields)
  note L = loop_complete[OF assms(4) inv, of sel "length entries" 0 entries]
  obtain b s where r: "?r = (b, s)" by (cases ?r)
  with L have b: "b = False" by simp
  from L r have f: "newItems s = readable_items E sel entries"
      "failedCount s = length (filter (unreadable E sel) entries)"
      "scannedCount (ui s) = length (readable_items E sel entries)"
      "isLoading (ui s) = True" "selectedFolder (ui s) = Some sel" "error (ui s) = None"
    by (simp_all add: start_fields)
  have "fst (scanFolder E st) = finish_scan (length entries) s"
    using assms(1-3) r b by (simp add: scanFolder_def scan_selected_def scan_entries_def)
  then show ?thesis
    using f by (simp add: finish_scan_def Let_def)
qed

lemma set_sortItems: "set (sortItems xs) = set xs"
  using mset_array_sort [of compareItems xs] by (metis sortItems_def set_mset_mset)

lemma all_unreadable:
  "\<forall>e\<in>set es. unreadable E sel e \<Longrightarrow>
     readable_items E sel es = [] \<and> filter (unreadable E sel) es = es"
  by (induction es) (auto simp: readable_items_def unreadable_def split: sum.splits)

lemma metadata_error_neq: "metadata_error \<noteq> ''Failed to scan folder: '' @ err"
  by (simp add: metadata_error_def)

lemma loop_error_unchanged: "error (ui (snd (scan_loop E sel n i es s))) = error (ui s)"
proof (rule loop_invariant [where I = "\<lambda>t. error (ui t) = error (ui s)"])
  show "error (ui s) = error (ui s)" by simp
next
  fix e and t :: loop_state
  assume "error (ui t) = error (ui s)"
  then show "error (ui (try_entry E sel n e t)) = error (ui s)"
    by (auto simp: try_entry_def pushed_def caught_def Let_def split: prod.splits sum.splits)
qed

lemma probe_entry_aborted_upd: "probe_entry (E\<lparr>aborted := ab\<rparr>) sel e = probe_entry E sel e"
  by (simp add: probe_entry_def split: sum.splits)



lemma scanFolder_completed_calls:
  assumes "open_dialog E = Inr (Some sel)" and "sel \<noteq> []" and "readDir E sel = Inr entries"
    and "\<forall>j. \<not> aborted E j"
  shows "snd (scanFolder E st) =
     [OpenDialog, ReadDir sel]
     @ concat (map (entry_calls E sel) (filter (\<lambda>e. \<not> hidden e) entries))"
proof -
  let ?s0 = "\<lparr>ui = start_scan sel (abort_existing st), newItems = [], processedCount = 0,
              failedCount = 0, calls = [OpenDialog, ReadDir sel]\<rparr>"
  have na: "\<forall>j<length entries. \<not> aborted E (0 + j)" using assms(4) by simp
  have "snd (scanFolder E st) = calls (snd (scan_loop E sel (length entries) 0 entries ?s0))"
    using assms(1-3)
    by (simp add: scanFolder_selected scan_selected_def scan_entries_def
        split: prod.splits bool.splits)
  then show ?thesis
    using loop_complete_calls [OF na, of sel "length entries" ?s0] by simp
qed

text \<open>The example inputs, evaluated.\<close>

lemma example_env_simps:
  "open_dialog example_env = Inr (Some ''/r'')"
  "readDir example_env ''/r'' = Inr example_listing"
  "\<forall>j. \<not> aborted example_env j"
  by (simp_all add: example_env_def)

lemma example_readable: "readable_items example_env ''/r'' example_listing = [file_a, dir_sub]"
  by (simp add: readable_items_def example_env_def example_listing_def hidden_def startsWith_def
      probe_entry_def file_a_def dir_sub_def)

lemma example_sorted: "sortItems [file_a, dir_sub] = [dir_sub, file_a]"
  by (simp add: sortItems_def array_sort_def compareItems_def file_a_def dir_sub_def)

lemma clean_env_simps:
  "open_dialog clean_env = Inr (Some ''/r'')"
  "readDir clean_env ''/r'' = Inr (take 3 example_listing)"
  "\<forall>j. \<not> aborted clean_env j"
  by (simp_all add: clean_env_def example_env_def)

lemma locked_env_simps:
  "open_dialog locked_env = Inr (Some ''/r'')"
  "readDir locked_env ''/r'' = Inr (drop 3 example_listing)"
  "\<forall>j. \<not> aborted locked_env j"
  by (simp_all add: locked_env_def example_env_def)

lemma clean_readable:
  "readable_items clean_env ''/r'' (take 3 example_listing) = [file_a, dir_sub]"
  by (simp add: readable_items_def clean_env_def example_env_def example_listing_def hidden_def
      startsWith_def probe_entry_def file_a_def dir_sub_def)

lemma example_unreadable:
  "filter (unreadable example_env ''/r'') example_listing
     = [\<lparr>entry_name = ''locked'', entry_isDirectory = True\<rparr>]"
  by (simp add: unreadable_def example_env_def example_listing_def hidden_def startsWith_def
      probe_entry_def)

lemma clean_unreadable:
  "filter (unreadable clean_env ''/r'') (take 3 example_listing) = []"
  by (simp add: unreadable_def clean_env_def example_env_def example_listing_def hidden_def
      startsWith_def probe_entry_def)

lemma locked_unreadable:
  "\<forall>e\<in>set (drop 3 example_listing). unreadable locked_env ''/r'' e"
  by (simp add: unreadable_def locked_env_def example_env_def example_listing_def hidden_def
      startsWith_def probe_entry_def)

lemma show_nat_digit: "n < 10 \<Longrightarrow> show_nat n = [digit_char n]"
  by (subst show_nat.simps) simp

lemma show_nat_step: "10 \<le> n \<Longrightarrow> show_nat n = show_nat (n div 10) @ [digit_char (n mod 10)]"
  by (subst show_nat.simps) simp

lemma show_nat_nonempty: "0 < length (show_nat n)"
  by (subst show_nat.simps) simp

lemma show_nat_ge100:
  assumes "100 \<le> n"
  shows "show_nat n = show_nat (n div 100) @ [digit_char (n div 10 mod 10), digit_char (n mod 10)]"
proof -
  have a: "show_nat n = show_nat (n div 10) @ [digit_char (n mod 10)]"
    using assms by (subst show_nat.simps) simp
  have "10 \<le> n div 10" using assms by simp
  then have b: "show_nat (n div 10) = show_nat (n div 10 div 10) @ [digit_char (n div 10 mod 10)]"
    by (subst show_nat.simps) simp
  have "n div 10 div 10 = n div 100" by (simp add: div_mult2_eq [symmetric])
  with a b show ?thesis by simp
qed

lemma toFixed2_fixed2:
  assumes "0 < den" and "den \<le> num" and "num < 10 ^ 21 * den"
  shows "toFixed2 expo num den = fixed2 (hundredths num den)"
proof -
  have pos: "0 \<le> num" using assms by simp
  have nz: "2 * den \<noteq> 0" using assms(1) by simp
  have e: "200 * den = (2 * den) * 100" by simp
  have "(200 * den) div (2 * den) = 100"
    unfolding e by (rule nonzero_mult_div_cancel_left [OF nz])
  moreover have "(200 * den) div (2 * den) \<le> (200 * num + den) div (2 * den)"
    by (rule zdiv_mono1) (use assms in simp_all)
  ultimately have "100 \<le> (200 * num + den) div (2 * den)" by simp
  then have n: "100 \<le> hundredths num den" by (simp add: hundredths_def)
  note s = show_nat_ge100 [OF n]
  have a: "\<bar>num\<bar> = num" using pos by simp
  have b: "\<not> num < 0" using pos by simp
  have c: "\<not> 10 ^ 21 * den \<le> num" using assms(3) by (simp only: not_le)
  have "length (show_nat (hundredths num den))
      = length (show_nat (hundredths num den div 100)) + 2"
    by (subst s) simp
  with show_nat_nonempty [of "hundredths num den div 100"]
  have l: "3 \<le> length (show_nat (hundredths num den))" by arith
  have "toFixed2 expo num den =
      (let m = show_nat (hundredths num den); m' = replicate (3 - length m) (CHR ''0'') @ m
       in take (length m' - 2) m' @ ''.'' @ drop (length m' - 2) m')"
    unfolding toFixed2_def Let_def a hundredths_def by (simp only: b c if_False append_Nil)
  also have "\<dots> = take (length (show_nat (hundredths num den)) - 2) (show_nat (hundredths num den))
       @ ''.'' @ drop (length (show_nat (hundredths num den)) - 2) (show_nat (hundredths num den))"
    using l by (simp add: Let_def)
  also have "\<dots> = fixed2 (hundredths num den)"
    by (subst (1 2 3 4) s) (simp add: fixed2_def)
  finally show ?thesis .
qed

section \<open>Failures of single entries\<close>

text \<open>
  Claim C2. In a scan whose listing succeeds and which is not aborted, a failing path join or
  size lookup of one entry does not stop the scan: the final list is the sorted list of the
  items of all entries that are not hidden and whose lookups succeed, each with the size the
  lookup returned, and nothing else; the loading flag is cleared; when at least one entry
  was read the error is empty; and the error of a failed scan is never set.
\<close>

theorem probe_failure_is_not_fatal:
  assumes "open_dialog E = Inr (Some sel)" and "sel \<noteq> []" and "readDir E sel = Inr entries"
    and "\<forall>j. \<not> aborted E j"
  shows "items (fst (scanFolder E st)) = sortItems (readable_items E sel entries)
    \<and> (\<forall>it. it \<in> set (items (fst (scanFolder E st))) \<longleftrightarrow>
          (\<exists>e\<in>set entries. \<not> hidden e \<and>
             (\<exists>p sz. join E sel (entry_name e) = Inr p \<and> size_fs E p = Inr sz
                \<and> it = \<lparr>name = entry_name e, path = p, size_bytes = sz,
                         isDirectory = entry_isDirectory e\<rparr>)))
    \<and> \<not> isLoading (fst (scanFolder E st))
    \<and> (readable_items E sel entries \<noteq> [] \<longrightarrow> error (fst (scanFolder E st)) = None)
    \<and> (\<forall>err. error (fst (scanFolder E st)) \<noteq> Some (''Failed to scan folder: '' @ err))"
proof -
  note c = scanFolder_completed [OF assms, of st]
  have 1: "items (fst (scanFolder E st)) = sortItems (readable_items E sel entries)"
    by (simp add: c)
  have 2: "\<forall>it. it \<in> set (items (fst (scanFolder E st))) \<longleftrightarrow>
          (\<exists>e\<in>set entries. \<not> hidden e \<and>
             (\<exists>p sz. join E sel (entry_name e) = Inr p \<and> size_fs E p = Inr sz
                \<and> it = \<lparr>name = entry_name e, path = p, size_bytes = sz,
                         isDirectory = entry_isDirectory e\<rparr>))"
    unfolding 1 set_sortItems set_readable_items by simp
  have 3: "\<not> isLoading (fst (scanFolder E st))" by (simp add: c)
  have 4: "readable_items E sel entries \<noteq> [] \<longrightarrow> error (fst (scanFolder E st)) = None"
    by (simp add: c)
  have 5: "\<forall>err. error (fst (scanFolder E st)) \<noteq> Some (''Failed to scan folder: '' @ err)"
    using metadata_error_neq by (simp add: c del: append.simps)
  show ?thesis by (intro conjI 1 2 3 4 5)
qed

theorem probe_failure_is_not_fatal_witness:
  "open_dialog example_env = Inr (Some ''/r'') \<and> ''/r'' \<noteq> []
   \<and> readDir example_env ''/r'' = Inr example_listing \<and> (\<forall>j. \<not> aborted example_env j)
   \<and> size_fs example_env ''/r/locked'' = Inl ''permission denied''
   \<and> items (fst (scanFolder example_env initial_state)) = [dir_sub, file_a]
   \<and> \<not> isLoading (fst (scanFolder example_env initial_state))
   \<and> error (fst (scanFolder example_env initial_state)) = None"
proof -
  have h: "''/r'' \<noteq> []" by simp
  have d: "size_fs example_env ''/r/locked'' = Inl ''permission denied''"
    by (simp add: example_env_def)
  note t = probe_failure_is_not_fatal [OF example_env_simps(1) h example_env_simps(2,3), of initial_state]
  from t have 1: "items (fst (scanFolder example_env initial_state)) = [dir_sub, file_a]"
    by (simp add: example_readable example_sorted)
  from t have 2: "\<not> isLoading (fst (scanFolder example_env initial_state))" by simp
  from t have 3: "error (fst (scanFolder example_env initial_state)) = None"
    by (simp add: example_readable)
  show ?thesis by (intro conjI example_env_simps h d 1 2 3)
qed

text \<open>
  Claim C3 says that the number of failed probes is always reported. \<open>failedCount\<close> is
  a local variable that is compared once and never shown: a folder in which one probe fails
  ends in the very same state as the folder without that entry, with no error.
\<close>

theorem failure_count_not_surfaced_counterexample:
  "failedCount (snd (scan_entries example_env ''/r'' example_listing
        (start_scan ''/r'' (abort_existing initial_state)))) = 1
   \<and> failedCount (snd (scan_entries clean_env ''/r'' (take 3 example_listing)
        (start_scan ''/r'' (abort_existing initial_state)))) = 0
   \<and> fst (scanFolder example_env initial_state) = fst (scanFolder clean_env initial_state)
   \<and> error (fst (scanFolder example_env initial_state)) = None"
proof -
  have inv: "scannedCount (start_scan ''/r'' (abort_existing initial_state)) = 0"
    by (simp add: start_fields)
  have 1: "failedCount (snd (scan_entries example_env ''/r'' example_listing
        (start_scan ''/r'' (abort_existing initial_state)))) = 1"
    unfolding scan_entries_def
    using loop_complete [OF example_env_simps(3), of _ "''/r''" _ 0 example_listing]
    by (simp add: inv example_unreadable)
  have 2: "failedCount (snd (scan_entries clean_env ''/r'' (take 3 example_listing)
        (start_scan ''/r'' (abort_existing initial_state)))) = 0"
    unfolding scan_entries_def
    using loop_complete [OF clean_env_simps(3), of _ "''/r''" _ 0 "take 3 example_listing"]
    by (simp add: inv clean_unreadable)
  have h: "''/r'' \<noteq> []" by simp
  note a = scanFolder_completed [OF example_env_simps(1) h example_env_simps(2,3), of initial_state]
  note b = scanFolder_completed [OF clean_env_simps(1) h clean_env_simps(2,3), of initial_state]
  have 3: "fst (scanFolder example_env initial_state) = fst (scanFolder clean_env initial_state)"
    unfolding a b by (simp add: example_readable clean_readable)
  have 4: "error (fst (scanFolder example_env initial_state)) = None"
    unfolding a by (simp add: example_readable)
  show ?thesis by (intro conjI 1 2 3 4)
qed

text \<open>
  Claim C3, amended. After a scan that ran to its end the number of failed probes is not
  part of the state: the state consists of the sorted readable items, their number, the
  folder and an error, and the error is either empty or the one fixed metadata message. It
  is empty whenever at least one entry was read, however many probes failed, and whenever
  the listing is empty; it is the metadata message when the listing is not empty and the
  probe of every listed entry failed. The failures go to the console: the calls of the scan
  are the dialog, the listing and the calls of the visible entries, with one console message
  for each failed probe.
\<close>

theorem error_surfaced_only_when_no_probe_succeeds:
  assumes "open_dialog E = Inr (Some sel)" and "sel \<noteq> []" and "readDir E sel = Inr entries"
    and "\<forall>j. \<not> aborted E j"
  shows "(readable_items E sel entries \<noteq> [] \<longrightarrow> error (fst (scanFolder E st)) = None)
    \<and> (entries = [] \<longrightarrow> error (fst (scanFolder E st)) = None)
    \<and> (entries \<noteq> [] \<and> (\<forall>e\<in>set entries. unreadable E sel e) \<longrightarrow>
          error (fst (scanFolder E st)) = Some metadata_error)
    \<and> (error (fst (scanFolder E st)) = None
        \<or> error (fst (scanFolder E st)) = Some metadata_error)
    \<and> fst (scanFolder E st) =
         \<lparr>items = sortItems (readable_items E sel entries), isLoading = False,
          selectedFolder = Some sel, error = error (fst (scanFolder E st)),
          scannedCount = length (readable_items E sel entries), abortControllerRef = None\<rparr>
    \<and> snd (scanFolder E st) =
         [OpenDialog, ReadDir sel]
         @ concat (map (entry_calls E sel) (filter (\<lambda>e. \<not> hidden e) entries))
    \<and> length (console_errors (snd (scanFolder E st)))
         = length (filter (unreadable E sel) entries)"
proof -
  note c = scanFolder_completed [OF assms, of st]
  note t = scanFolder_completed_calls [OF assms, of st]
  have 1: "readable_items E sel entries \<noteq> [] \<longrightarrow> error (fst (scanFolder E st)) = None"
    by (simp add: c)
  have 2: "entries = [] \<longrightarrow> error (fst (scanFolder E st)) = None"
    by (simp add: c)
  have 3: "entries \<noteq> [] \<and> (\<forall>e\<in>set entries. unreadable E sel e) \<longrightarrow>
          error (fst (scanFolder E st)) = Some metadata_error"
    using all_unreadable [of entries E sel] by (simp add: c)
  have 4: "error (fst (scanFolder E st)) = None
        \<or> error (fst (scanFolder E st)) = Some metadata_error"
    by (simp add: c)
  have 5: "fst (scanFolder E st) =
         \<lparr>items = sortItems (readable_items E sel entries), isLoading = False,
          selectedFolder = Some sel, error = error (fst (scanFolder E st)),
          scannedCount = length (readable_items E sel entries), abortControllerRef = None\<rparr>"
    by (simp add: c)
  have 6: "length (console_errors (snd (scanFolder E st)))
         = length (filter (unreadable E sel) entries)"
  proof -
    have z: "console_errors [OpenDialog, ReadDir sel] = []"
      by (simp add: console_errors_def)
    have "length (console_errors (snd (scanFolder E st)))
        = length (console_errors
            (concat (map (entry_calls E sel) (filter (\<lambda>e. \<not> hidden e) entries))))"
      unfolding t console_errors_append z by simp
    then show ?thesis by (simp add: console_loop_calls)
  qed
  show ?thesis by (intro conjI 1 2 3 4 5 t 6)
qed

theorem error_surfaced_only_when_no_probe_succeeds_witness:
  "open_dialog example_env = Inr (Some ''/r'') \<and> ''/r'' \<noteq> []
   \<and> readDir example_env ''/r'' = Inr example_listing \<and> (\<forall>j. \<not> aborted example_env j)
   \<and> readable_items example_env ''/r'' example_listing \<noteq> []
   \<and> error (fst (scanFolder example_env initial_state)) = None
   \<and> length (console_errors (snd (scanFolder example_env initial_state))) = 1
   \<and> open_dialog locked_env = Inr (Some ''/r'')
   \<and> readDir locked_env ''/r'' = Inr (drop 3 example_listing) \<and> (\<forall>j. \<not> aborted locked_env j)
   \<and> drop 3 example_listing \<noteq> []
   \<and> list_all (unreadable locked_env ''/r'') (drop 3 example_listing)
   \<and> error (fst (scanFolder locked_env initial_state)) = Some metadata_error"
proof -
  have h: "''/r'' \<noteq> []" by simp
  have r: "readable_items example_env ''/r'' example_listing \<noteq> []"
    by (simp add: example_readable)
  have n: "drop 3 example_listing \<noteq> []" by (simp add: example_listing_def)
  note a = error_surfaced_only_when_no_probe_succeeds
    [OF example_env_simps(1) h example_env_simps(2,3), of initial_state]
  note b = error_surfaced_only_when_no_probe_succeeds
    [OF locked_env_simps(1) h locked_env_simps(2,3), of initial_state]
  from a r have 1: "error (fst (scanFolder example_env initial_state)) = None" by blast
  from a have "length (console_errors (snd (scanFolder example_env initial_state)))
      = length (filter (unreadable example_env ''/r'') example_listing)" by blast
  then have 3: "length (console_errors (snd (scanFolder example_env initial_state))) = 1"
    by (simp add: example_unreadable)
  from b n locked_unreadable
  have 2: "error (fst (scanFolder locked_env initial_state)) = Some metadata_error" by blast
  have u: "list_all (unreadable locked_env ''/r'') (drop 3 example_listing)"
    using locked_unreadable by (simp add: list_all_iff)
  show ?thesis
    by (intro conjI example_env_simps locked_env_simps h r n u 1 2 3)
qed

section \<open>Cancellation\<close>

text \<open>
  Claim C4. When the loop first sees the abort signal at the top of iteration \<open>k\<close>, it
  returns there: its state is the state after the first \<open>k\<close> entries, and the calls made
  are exactly the calls for those of the first \<open>k\<close> entries that are not hidden, so no
  join and no size lookup is started for a later entry. The signal is no argument of the
  lookups: they return the same whatever the signal is. For the whole function, the calls
  are the dialog, the listing and those calls, and nothing after them.
\<close>

theorem abort_stops_probing:
  assumes "k < length entries" and "aborted E (i + k)" and "\<forall>j<k. \<not> aborted E (i + j)"
  shows "scan_loop E sel n i entries s = (True, snd (scan_loop E sel n i (take k entries) s))
    \<and> calls (snd (scan_loop E sel n i entries s))
        = calls s @ concat (map (entry_calls E sel) (filter (\<lambda>e. \<not> hidden e) (take k entries)))
    \<and> (\<forall>ab e. probe_entry (E\<lparr>aborted := ab\<rparr>) sel e = probe_entry E sel e)
    \<and> (i = 0 \<and> n = length entries \<and> open_dialog E = Inr (Some sel) \<and> sel \<noteq> []
          \<and> readDir E sel = Inr entries \<longrightarrow>
        snd (scanFolder E st)
          = [OpenDialog, ReadDir sel]
            @ concat (map (entry_calls E sel) (filter (\<lambda>e. \<not> hidden e) (take k entries))))"
proof -
  note t = loop_abort_take [OF assms, of sel n]
  have 1: "scan_loop E sel n i entries s = (True, snd (scan_loop E sel n i (take k entries) s))"
    using t by simp
  have na: "\<forall>j<length (take k entries). \<not> aborted E (i + j)"
    using assms(3) by simp
  have c: "\<And>s'. calls (snd (scan_loop E sel n i entries s'))
        = calls s' @ concat (map (entry_calls E sel) (filter (\<lambda>e. \<not> hidden e) (take k entries)))"
    using t loop_complete_calls [OF na, of sel n] by simp
  have 3: "\<forall>ab e. probe_entry (E\<lparr>aborted := ab\<rparr>) sel e = probe_entry E sel e"
    by (simp add: probe_entry_aborted_upd)
  have 4: "i = 0 \<and> n = length entries \<and> open_dialog E = Inr (Some sel) \<and> sel \<noteq> []
          \<and> readDir E sel = Inr entries \<longrightarrow>
        snd (scanFolder E st)
          = [OpenDialog, ReadDir sel]
            @ concat (map (entry_calls E sel) (filter (\<lambda>e. \<not> hidden e) (take k entries)))"
  proof
    assume a: "i = 0 \<and> n = length entries \<and> open_dialog E = Inr (Some sel) \<and> sel \<noteq> []
          \<and> readDir E sel = Inr entries"
    let ?s0 = "\<lparr>ui = start_scan sel (abort_existing st), newItems = [], processedCount = 0,
              failedCount = 0, calls = [OpenDialog, ReadDir sel]\<rparr>"
    from a t [of ?s0] have l: "fst (scan_loop E sel (length entries) 0 entries ?s0) = True"
      by simp
    from a have "scanFolder E st = scan_selected E sel (abort_existing st)"
      by (simp add: scanFolder_selected)
    with a l have "snd (scanFolder E st) = calls (snd (scan_loop E sel (length entries) 0 entries ?s0))"
      by (simp add: scan_selected_def scan_entries_def split: prod.splits bool.splits)
    with a c [of ?s0] show "snd (scanFolder E st)
          = [OpenDialog, ReadDir sel]
            @ concat (map (entry_calls E sel) (filter (\<lambda>e. \<not> hidden e) (take k entries)))"
      by simp
  qed
  show ?thesis by (intro conjI 1 c 3 4)
qed

theorem abort_stops_probing_witness:
  "(2::nat) < length example_listing \<and> aborted aborting_env (0 + 2)
   \<and> \<not> aborted aborting_env 0 \<and> \<not> aborted aborting_env 1
   \<and> open_dialog aborting_env = Inr (Some ''/r'') \<and> ''/r'' \<noteq> []
   \<and> readDir aborting_env ''/r'' = Inr example_listing
   \<and> snd (scanFolder aborting_env initial_state)
       = [OpenDialog, ReadDir ''/r'', Join ''/r'' ''a.txt'', Size ''/r/a.txt'']"
proof -
  have k: "(2::nat) < length example_listing" by (simp add: example_listing_def)
  have a: "aborted aborting_env (0 + 2)" by (simp add: aborting_env_def)
  have n: "\<forall>j<2. \<not> aborted aborting_env (0 + j)" by (simp add: aborting_env_def)
  have o: "open_dialog aborting_env = Inr (Some ''/r'')"
    by (simp add: aborting_env_def example_env_def)
  have h: "''/r'' \<noteq> []" by simp
  have r: "readDir aborting_env ''/r'' = Inr example_listing"
    by (simp add: aborting_env_def example_env_def)
  have e: "concat (map (entry_calls aborting_env ''/r'')
              (filter (\<lambda>e. \<not> hidden e) (take 2 example_listing)))
           = [Join ''/r'' ''a.txt'', Size ''/r/a.txt'']"
    by (simp add: example_listing_def hidden_def startsWith_def entry_calls_def probe_entry_def
        aborting_env_def example_env_def)
  from abort_stops_probing [OF k a n, of "''/r''" "length example_listing" _ initial_state] o h r
  have "snd (scanFolder aborting_env initial_state)
       = [OpenDialog, ReadDir ''/r'']
         @ concat (map (entry_calls aborting_env ''/r'')
              (filter (\<lambda>e. \<not> hidden e) (take 2 example_listing)))"
    by blast
  then have 1: "snd (scanFolder aborting_env initial_state)
       = [OpenDialog, ReadDir ''/r'', Join ''/r'' ''a.txt'', Size ''/r/a.txt'']"
    by (simp add: e)
  have n0: "\<not> aborted aborting_env 0" and n1: "\<not> aborted aborting_env 1"
    by (simp_all add: aborting_env_def)
  show ?thesis by (intro conjI k a n0 n1 o h r 1)
qed

section \<open>An unreadable root\<close>

text \<open>
  Claim C5. When the listing of the chosen folder fails, the scan ends with the message
  of a failed scan, the loading flag cleared, an empty item list (whatever was listed
  before) and no lookup of any entry. When the listing succeeds, that message is never
  set: the error is empty or the metadata message.
\<close>

theorem unreadable_root_fails_scan:
  assumes "open_dialog E = Inr (Some sel)" and "sel \<noteq> []"
  shows "(\<forall>err. readDir E sel = Inl err \<longrightarrow>
            scanFolder E st =
              (\<lparr>items = [], isLoading = False, selectedFolder = Some sel,
                error = Some (''Failed to scan folder: '' @ err), scannedCount = 0,
                abortControllerRef = None\<rparr>,
               [OpenDialog, ReadDir sel, ConsoleError [err]]))
    \<and> (\<forall>entries. readDir E sel = Inr entries \<longrightarrow>
            error (fst (scanFolder E st)) = None
          \<or> error (fst (scanFolder E st)) = Some metadata_error)"
proof (intro conjI allI impI)
  fix err
  assume "readDir E sel = Inl err"
  then show "scanFolder E st =
              (\<lparr>items = [], isLoading = False, selectedFolder = Some sel,
                error = Some (''Failed to scan folder: '' @ err), scannedCount = 0,
                abortControllerRef = None\<rparr>,
               [OpenDialog, ReadDir sel, ConsoleError [err]])"
    by (simp add: scanFolder_selected [OF assms] scan_selected_def start_scan_eq scan_failed_def
        del: append.simps)
next
  fix entries
  assume r: "readDir E sel = Inr entries"
  let ?s0 = "\<lparr>ui = start_scan sel (abort_existing st), newItems = [], processedCount = 0,
              failedCount = 0, calls = [OpenDialog, ReadDir sel]\<rparr>"
  obtain b s where l: "scan_loop E sel (length entries) 0 entries ?s0 = (b, s)"
    by (cases "scan_loop E sel (length entries) 0 entries ?s0")
  have "error (ui s) = None"
    using loop_error_unchanged [of E sel "length entries" 0 entries ?s0] l
    by (simp add: start_fields)
  then show "error (fst (scanFolder E st)) = None
          \<or> error (fst (scanFolder E st)) = Some metadata_error"
    using r l
    by (cases b) (simp_all add: scanFolder_selected [OF assms] scan_selected_def scan_entries_def
        finish_scan_def Let_def)
qed

theorem unreadable_root_fails_scan_witness:
  "open_dialog broken_env = Inr (Some ''/r'') \<and> ''/r'' \<noteq> []
   \<and> readDir broken_env ''/r'' = Inl ''permission denied''
   \<and> scanFolder broken_env (initial_state\<lparr>items := [file_a]\<rparr>) =
        (\<lparr>items = [], isLoading = False, selectedFolder = Some ''/r'',
          error = Some ''Failed to scan folder: permission denied'', scannedCount = 0,
          abortControllerRef = None\<rparr>,
         [OpenDialog, ReadDir ''/r'', ConsoleError [''permission denied'']])
   \<and> open_dialog locked_env = Inr (Some ''/r'')
   \<and> readDir locked_env ''/r'' = Inr (drop 3 example_listing)
   \<and> (error (fst (scanFolder locked_env initial_state)) = None
      \<or> error (fst (scanFolder locked_env initial_state)) = Some metadata_error)"
proof -
  have h: "''/r'' \<noteq> []" by simp
  have o: "open_dialog broken_env = Inr (Some ''/r'')"
    by (simp add: broken_env_def example_env_def)
  have r: "readDir broken_env ''/r'' = Inl ''permission denied''"
    by (simp add: broken_env_def)
  from unreadable_root_fails_scan [OF o h, of "initial_state\<lparr>items := [file_a]\<rparr>"] r
  have 1: "scanFolder broken_env (initial_state\<lparr>items := [file_a]\<rparr>) =
        (\<lparr>items = [], isLoading = False, selectedFolder = Some ''/r'',
          error = Some ''Failed to scan folder: permission denied'', scannedCount = 0,
          abortControllerRef = None\<rparr>,
         [OpenDialog, ReadDir ''/r'', ConsoleError [''permission denied'']])"
    by simp
  from unreadable_root_fails_scan [OF locked_env_simps(1) h, of initial_state] locked_env_simps(2)
  have 2: "error (fst (scanFolder locked_env initial_state)) = None
      \<or> error (fst (scanFolder locked_env initial_state)) = Some metadata_error"
    by blast
  show ?thesis
    by (intro conjI h o r 1 2 locked_env_simps(1,2))
qed

section \<open>Hidden entries\<close>




section \<open>Repeating a scan\<close>

text \<open>
  Claim C8. The result of a scan of a chosen folder depends on the listing, the results of
  the lookups and the abort signal only: two runs that agree on these end in the same state
  with the same calls, whatever the state before; scanning again from the state a scan left
  gives that state again; and sorting a sorted list changes nothing.
\<close>

theorem scan_and_sort_deterministic:
  assumes "open_dialog E = Inr (Some sel)" and "sel \<noteq> []"
    and "open_dialog E' = Inr (Some sel)" and "readDir E' sel = readDir E sel"
    and "\<forall>nm. join E sel nm = join E' sel nm" and "\<forall>p. size_fs E p = size_fs E' p"
    and "\<forall>j. aborted E j = aborted E' j"
  shows "scanFolder E' st' = scanFolder E st
    \<and> scanFolder E (fst (scanFolder E st)) = scanFolder E st
    \<and> sortItems (sortItems xs) = sortItems xs"
proof -
  have sel: "\<And>a b. scan_selected E sel (abort_existing a) = scan_selected E sel (abort_existing b)"
    unfolding scan_selected_def start_scan_eq by (rule refl)
  have ent: "\<And>es a. scan_entries E' sel es a = scan_entries E sel es a"
    using loop_cong [OF assms(5-7)] by (simp add: scan_entries_def)
  have cong: "\<And>a. scan_selected E' sel a = scan_selected E sel a"
    unfolding scan_selected_def ent assms(4) by (rule refl)
  have 1: "scanFolder E' st' = scanFolder E st"
    using sel [of st' st] cong
    by (simp add: scanFolder_selected [OF assms(1,2)] scanFolder_selected [OF assms(3,2)])
  have 2: "scanFolder E (fst (scanFolder E st)) = scanFolder E st"
    using sel [of "fst (scanFolder E st)" st] by (simp add: scanFolder_selected [OF assms(1,2)])
  show ?thesis by (intro conjI 1 2 sortItems_idem)
qed

theorem scan_and_sort_deterministic_witness:
  "open_dialog example_env = Inr (Some ''/r'') \<and> ''/r'' \<noteq> []
   \<and> open_dialog other_env = Inr (Some ''/r'')
   \<and> readDir other_env ''/r'' = readDir example_env ''/r''
   \<and> readDir other_env ''/q'' \<noteq> readDir example_env ''/q''
   \<and> (\<forall>nm. join example_env ''/r'' nm = join other_env ''/r'' nm)
   \<and> (\<forall>p. size_fs example_env p = size_fs other_env p)
   \<and> (\<forall>j. aborted example_env j = aborted other_env j)
   \<and> scanFolder other_env (initial_state\<lparr>items := [file_b], scannedCount := 1\<rparr>)
       = scanFolder example_env initial_state
   \<and> scanFolder example_env (fst (scanFolder example_env initial_state))
       = scanFolder example_env initial_state
   \<and> sortItems (sortItems [file_a, dir_sub, file_b]) = sortItems [file_a, dir_sub, file_b]"
proof -
  have h: "''/r'' \<noteq> []" by simp
  have o: "open_dialog other_env = Inr (Some ''/r'')"
    by (simp add: other_env_def example_env_def)
  have r: "readDir other_env ''/r'' = readDir example_env ''/r''"
    by (simp add: other_env_def example_env_def)
  have q: "readDir other_env ''/q'' \<noteq> readDir example_env ''/q''"
    by (simp add: other_env_def example_env_def)
  have j: "\<forall>nm. join example_env ''/r'' nm = join other_env ''/r'' nm"
    by (simp add: other_env_def)
  have s: "\<forall>p. size_fs example_env p = size_fs other_env p"
    by (simp add: other_env_def)
  have a: "\<forall>j. aborted example_env j = aborted other_env j"
    by (simp add: other_env_def)
  note t = scan_and_sort_deterministic [OF example_env_simps(1) h o r j s a,
      of "initial_state\<lparr>items := [file_b], scannedCount := 1\<rparr>" initial_state
         "[file_a, dir_sub, file_b]"]
  show ?thesis
    using t by (intro conjI example_env_simps(1) h o r q j s a) simp_all
qed

section \<open>Units of formatFileSize\<close>

text \<open>
  Claim C10. For every byte count that is not negative, \<open>formatFileSize\<close> returns
  \<open>0 Bytes\<close> for 0; the decimal count followed by \<open>Bytes\<close> below 1024; the count
  divided by 1024, by \<open>1024^2\<close> or by \<open>1024^3\<close>, rounded to hundredths and printed with
  two decimals, followed by \<open>KB\<close> below \<open>1024^2\<close>, by \<open>MB\<close> below \<open>1024^3\<close> and
  by \<open>GB\<close> from \<open>1024^3\<close> on. There is no larger unit: a count so large that JavaScript
  prints the quotient in exponent notation still gets \<open>GB\<close>.
\<close>

theorem formatFileSize_units:
  assumes "0 \<le> bytes"
  shows "(bytes = 0 \<longrightarrow> formatFileSize expo bytes = ''0 Bytes'')
    \<and> (0 < bytes \<and> bytes < 1024 \<longrightarrow>
          formatFileSize expo bytes = show_nat (nat bytes) @ '' Bytes'')
    \<and> (1024 \<le> bytes \<and> bytes < 1024 ^ 2 \<longrightarrow>
          formatFileSize expo bytes = fixed2 (hundredths bytes 1024) @ '' KB'')
    \<and> (1024 ^ 2 \<le> bytes \<and> bytes < 1024 ^ 3 \<longrightarrow>
          formatFileSize expo bytes = fixed2 (hundredths bytes (1024 ^ 2)) @ '' MB'')
    \<and> (1024 ^ 3 \<le> bytes \<and> bytes < 10 ^ 21 * 1024 ^ 3 \<longrightarrow>
          formatFileSize expo bytes = fixed2 (hundredths bytes (1024 ^ 3)) @ '' GB'')
    \<and> (10 ^ 21 * 1024 ^ 3 \<le> bytes \<longrightarrow>
          formatFileSize expo bytes = expo bytes (1024 ^ 3) @ '' GB'')"
proof -
  have 1: "bytes = 0 \<longrightarrow> formatFileSize expo bytes = ''0 Bytes''"
    by (simp add: formatFileSize_def)
  have 2: "0 < bytes \<and> bytes < 1024 \<longrightarrow>
          formatFileSize expo bytes = show_nat (nat bytes) @ '' Bytes''"
    by (simp add: formatFileSize_def number_toString_def)
  have 3: "1024 \<le> bytes \<and> bytes < 1024 ^ 2 \<longrightarrow>
          formatFileSize expo bytes = fixed2 (hundredths bytes 1024) @ '' KB''"
  proof
    assume a: "1024 \<le> bytes \<and> bytes < 1024 ^ 2"
    then have "toFixed2 expo bytes 1024 = fixed2 (hundredths bytes 1024)"
      by (intro toFixed2_fixed2) simp_all
    with a show "formatFileSize expo bytes = fixed2 (hundredths bytes 1024) @ '' KB''"
      by (simp add: formatFileSize_def)
  qed
  have 4: "1024 ^ 2 \<le> bytes \<and> bytes < 1024 ^ 3 \<longrightarrow>
          formatFileSize expo bytes = fixed2 (hundredths bytes (1024 ^ 2)) @ '' MB''"
  proof
    assume a: "1024 ^ 2 \<le> bytes \<and> bytes < 1024 ^ 3"
    then have "toFixed2 expo bytes (1024 ^ 2) = fixed2 (hundredths bytes (1024 ^ 2))"
      by (intro toFixed2_fixed2) simp_all
    with a show "formatFileSize expo bytes = fixed2 (hundredths bytes (1024 ^ 2)) @ '' MB''"
      by (simp add: formatFileSize_def)
  qed
  have 5: "1024 ^ 3 \<le> bytes \<and> bytes < 10 ^ 21 * 1024 ^ 3 \<longrightarrow>
          formatFileSize expo bytes = fixed2 (hundredths bytes (1024 ^ 3)) @ '' GB''"
  proof
    assume a: "1024 ^ 3 \<le> bytes \<and> bytes < 10 ^ 21 * 1024 ^ 3"
    then have "toFixed2 expo bytes (1024 ^ 3) = fixed2 (hundredths bytes (1024 ^ 3))"
      by (intro toFixed2_fixed2) simp_all
    with a show "formatFileSize expo bytes = fixed2 (hundredths bytes (1024 ^ 3)) @ '' GB''"
      by (simp add: formatFileSize_def)
  qed
  have 6: "10 ^ 21 * 1024 ^ 3 \<le> bytes \<longrightarrow>
          formatFileSize expo bytes = expo bytes (1024 ^ 3) @ '' GB''"
    by (simp add: formatFileSize_def toFixed2_def)
  show ?thesis by (intro conjI 1 2 3 4 5 6)
qed

theorem formatFileSize_units_witness:
  "(0::int) \<le> 1536
   \<and> formatFileSize (\<lambda>a b. ''1e+21'') 0 = ''0 Bytes''
   \<and> formatFileSize (\<lambda>a b. ''1e+21'') 1023 = ''1023 Bytes''
   \<and> formatFileSize (\<lambda>a b. ''1e+21'') 1536 = ''1.50 KB''
   \<and> formatFileSize (\<lambda>a b. ''1e+21'') (3 * 1024 ^ 2 + 512 * 1024) = ''3.50 MB''
   \<and> formatFileSize (\<lambda>a b. ''1e+21'') (5 * 1024 ^ 3) = ''5.00 GB''
   \<and> formatFileSize (\<lambda>a b. ''1e+21'') (2 ^ 60) = ''1073741824.00 GB''
   \<and> formatFileSize (\<lambda>a b. ''1e+21'') (10 ^ 21 * 1024 ^ 3) = ''1e+21 GB''"
proof -
  note ev = fixed2_def hundredths_def show_nat_digit show_nat_step digit_char_def
  have 0: "formatFileSize (\<lambda>a b. ''1e+21'') 0 = ''0 Bytes''"
    using formatFileSize_units [of 0 "\<lambda>a b. ''1e+21''"] by simp
  have 1: "formatFileSize (\<lambda>a b. ''1e+21'') 1023 = ''1023 Bytes''"
    using formatFileSize_units [of 1023 "\<lambda>a b. ''1e+21''"] by (simp add: ev)
  have 2: "formatFileSize (\<lambda>a b. ''1e+21'') 1536 = ''1.50 KB''"
    using formatFileSize_units [of 1536 "\<lambda>a b. ''1e+21''"] by (simp add: ev)
  have 3: "formatFileSize (\<lambda>a b. ''1e+21'') (3 * 1024 ^ 2 + 512 * 1024) = ''3.50 MB''"
    using formatFileSize_units [of "3 * 1024 ^ 2 + 512 * 1024" "\<lambda>a b. ''1e+21''"]
    by (simp add: ev)
  have 4: "formatFileSize (\<lambda>a b. ''1e+21'') (5 * 1024 ^ 3) = ''5.00 GB''"
    using formatFileSize_units [of "5 * 1024 ^ 3" "\<lambda>a b. ''1e+21''"] by (simp add: ev)
  have 5: "formatFileSize (\<lambda>a b. ''1e+21'') (2 ^ 60) = ''1073741824.00 GB''"
    using formatFileSize_units [of "2 ^ 60" "\<lambda>a b. ''1e+21''"] by (simp add: ev)
  have 6: "formatFileSize (\<lambda>a b. ''1e+21'') (10 ^ 21 * 1024 ^ 3) = ''1e+21 GB''"
    using formatFileSize_units [of "10 ^ 21 * 1024 ^ 3" "\<lambda>a b. ''1e+21''"] by simp
  show ?thesis by (intro conjI 0 1 2 3 4 5 6) simp
qed

end
